theory Spec2Isabelle
  imports Main "HOL-Library.Word" "HOL-Library.Signed_Division" "HOL-Library.Sublist"
begin

section \<open>Go runtime conventions used by the model\<close>

text \<open>
  Go strings are byte sequences: \<^typ>\<open>string\<close>. A run-time panic of the source is a
  value of \<open>panic\<close>, returned on the left of a sum. Go's \<open>int\<close> is 64 bits wide; where
  the source only compares or indexes with it the model uses \<^typ>\<open>int\<close>, and where the
  source's arithmetic can leave the 64-bit range the wrap-around is written out.
  \<open>time.Time\<close> instants and \<open>time.Duration\<close> are integers counting nanoseconds.
\<close>

datatype panic =
    IndexOutOfRange
  | DivideByZero
  | InvalidArgumentToIntn
  | SliceBoundsOutOfRange
  | SendOnClosedChannel
  | CloseOfClosedChannel

text \<open>\<open>t.Sub(u)\<close>: the difference in nanoseconds, saturated to the range of \<open>Duration\<close>.\<close>

definition maxDuration :: int where
  "maxDuration = 9223372036854775807"

definition minDuration :: int where
  "minDuration = - 9223372036854775808"

definition time_Sub :: "int \<Rightarrow> int \<Rightarrow> int" where
  "time_Sub t u = max minDuration (min maxDuration (t - u))"

text \<open>\<open>d.Microseconds()\<close>: integer division of the nanoseconds, truncating towards zero.\<close>

definition Microseconds :: "int \<Rightarrow> int" where
  "Microseconds d = d sdiv 1000"

section \<open>internal/util: credentials\<close>

record Credentials =
  Username :: string
  Password :: string

record CredentialsManager =
  credentials :: "Credentials list"
  current :: int

text \<open>
  \<open>GetCredentials\<close>: the round-robin accessor; it returns the entry at \<open>current\<close> and
  advances \<open>current\<close>. It is the only operation that changes the manager.
\<close>

definition GetCredentials :: "CredentialsManager \<Rightarrow> panic + (Credentials \<times> CredentialsManager)" where
  "GetCredentials cm =
     (let n = int (length (credentials cm)) in
      if 0 \<le> current cm \<and> current cm < n
      then Inr (credentials cm ! nat (current cm),
                cm\<lparr>current := (current cm + 1) smod n\<rparr>)
      else Inl IndexOutOfRange)"

text \<open>
  \<open>GetCredentialsForUser\<close>: \<open>index := userID % len(cm.credentials)\<close>, then the slice is
  indexed. Go's \<open>%\<close> truncates (\<open>smod\<close>), panics on a zero divisor, and indexing with a
  negative or too large index panics.
\<close>

definition GetCredentialsForUser :: "CredentialsManager \<Rightarrow> int \<Rightarrow> panic + Credentials" where
  "GetCredentialsForUser cm userID =
     (let n = int (length (credentials cm)) in
      if n = 0 then Inl DivideByZero
      else let index = userID smod n in
        if 0 \<le> index \<and> index < n then Inr (credentials cm ! nat index)
        else Inl IndexOutOfRange)"

section \<open>internal/util: rate limiter\<close>

record RateLimiter =
  rate :: int
  capacity :: int
  tokens :: int
  lastTime :: int

definition NewRateLimiter :: "int \<Rightarrow> int \<Rightarrow> RateLimiter" where
  "NewRateLimiter rps now = \<lparr>rate = rps, capacity = rps, tokens = rps, lastTime = now\<rparr>"

text \<open>
  \<open>tokensToAdd := int(elapsed.Seconds() * float64(rl.rate))\<close>. The product is taken in
  \<open>float64\<close> by the source; the model takes the exact product of the elapsed nanoseconds
  and the rate and truncates towards zero. For \<open>rate = 0\<close> both are exactly \<open>0\<close>.
\<close>

definition tokensToAdd :: "int \<Rightarrow> int \<Rightarrow> int" where
  "tokensToAdd elapsed r = (elapsed * r) sdiv 1000000000"

text \<open>\<open>Allow\<close>, with the reading of \<open>time.Now()\<close> passed in as \<open>now\<close>.\<close>

definition Allow :: "int \<Rightarrow> RateLimiter \<Rightarrow> bool \<times> RateLimiter" where
  "Allow now rl =
     (let elapsed = time_Sub now (lastTime rl);
          add = tokensToAdd elapsed (rate rl);
          rl1 = (if add > 0
                 then rl\<lparr>tokens := (if tokens rl + add > capacity rl then capacity rl
                                     else tokens rl + add),
                         lastTime := now\<rparr>
                 else rl)
      in if tokens rl1 > 0 then (True, rl1\<lparr>tokens := tokens rl1 - 1\<rparr>)
         else (False, rl1))"

text \<open>
  \<open>Wait\<close>: \<open>for !rl.Allow() { time.Sleep(10ms) }\<close>. The loop has no bound, so it is a partial
  function: \<open>None\<close> is "never returns". \<open>clock i\<close> is the reading of \<open>time.Now()\<close> at the
  \<open>i\<close>-th call of \<open>Allow\<close>; the result carries the limiter and the number of calls made,
  so one call means "returned without sleeping".
\<close>

partial_function (option) Wait :: "(nat \<Rightarrow> int) \<Rightarrow> nat \<Rightarrow> RateLimiter \<Rightarrow> (RateLimiter \<times> nat) option" where
  "Wait clock i rl =
     (if fst (Allow (clock i) rl) then Some (snd (Allow (clock i) rl), Suc i)
      else Wait clock (Suc i) (snd (Allow (clock i) rl)))"

declare Wait.simps [code]

text \<open>A clock that advances by the 10 ms sleep between two readings.\<close>

definition sleepClock :: "nat \<Rightarrow> int" where
  "sleepClock i = 10000000 * int i"

section \<open>internal/metrics: the sink and the aggregator\<close>

record RequestMetric =
  Name :: string
  Method :: string
  URL :: string
  StartTime :: int
  EndTime :: int
  StatusCode :: int
  BytesRead :: "64 word"
  Error :: string

text \<open>
  \<open>ActionStats\<close>. The counters are \<open>int64\<close>. The histogram is a value of the
  \<open>hdrhistogram-go\<close> package, which is not part of the repository: its type is the
  parameter \<open>'h\<close>, and its two operations the aggregator calls, \<open>New\<close> and
  \<open>RecordValue\<close>, are parameters \<open>hnew\<close> and \<open>hrec\<close> of the functions below.
\<close>

record 'h ActionStats =
  StatsName :: string
  TotalOK :: "64 word"
  TotalErrors :: "64 word"
  Histogram :: 'h
  BytesTotal :: "64 word"

text \<open>
  \<open>Collector\<close>: \<open>metrics\<close> is the content of the buffered channel, oldest first,
  \<open>closed\<close> whether the channel was closed, \<open>doneClosed\<close> whether \<open>collect\<close> has
  returned (closing \<open>done\<close>).
\<close>

record 'h Collector =
  metrics :: "RequestMetric list"
  closed :: bool
  actions :: "string \<rightharpoonup> 'h ActionStats"
  doneClosed :: bool

definition metricsCapacity :: nat where
  "metricsCapacity = 10000"

definition NewCollector :: "'h Collector" where
  "NewCollector = \<lparr>metrics = [], closed = False, actions = Map.empty, doneClosed = False\<rparr>"

text \<open>
  \<open>Record\<close>: a \<open>select\<close> with a \<open>default\<close> branch, so the send happens only when the
  buffer has room and the metric is dropped otherwise. A send on a closed channel panics.
\<close>

definition Record :: "'h Collector \<Rightarrow> RequestMetric \<Rightarrow> panic + 'h Collector" where
  "Record c metric =
     (if closed c then Inl SendOnClosedChannel
      else if length (metrics c) < metricsCapacity
        then Inr (c\<lparr>metrics := metrics c @ [metric]\<rparr>)
        else Inr c)"

definition latencyMicros :: "RequestMetric \<Rightarrow> int" where
  "latencyMicros metric = Microseconds (time_Sub (EndTime metric) (StartTime metric))"

text \<open>"Get or create action stats": the entry of the map, or a fresh one.\<close>

definition getOrCreate ::
  "(int \<Rightarrow> int \<Rightarrow> int \<Rightarrow> 'h) \<Rightarrow> (string \<rightharpoonup> 'h ActionStats) \<Rightarrow> string \<Rightarrow> 'h ActionStats" where
  "getOrCreate hnew acts name =
     (case acts name of
        Some st \<Rightarrow> st
      | None \<Rightarrow> \<lparr>StatsName = name, TotalOK = 0, TotalErrors = 0,
                 Histogram = hnew 1 60000000 3, BytesTotal = 0\<rparr>)"

text \<open>The body of the \<open>for metric := range c.metrics\<close> loop of \<open>collect\<close>, for one metric.\<close>

definition collectOne ::
  "(int \<Rightarrow> int \<Rightarrow> int \<Rightarrow> 'h) \<Rightarrow> ('h \<Rightarrow> int \<Rightarrow> 'h) \<Rightarrow>
   (string \<rightharpoonup> 'h ActionStats) \<Rightarrow> RequestMetric \<Rightarrow> (string \<rightharpoonup> 'h ActionStats)" where
  "collectOne hnew hrec acts metric =
     (let stats = getOrCreate hnew acts (Name metric);
          stats1 = (if Error metric = [] \<and> StatusCode metric \<ge> 200 \<and> StatusCode metric < 400
                    then stats\<lparr>TotalOK := TotalOK stats + 1,
                               Histogram := hrec (Histogram stats) (latencyMicros metric)\<rparr>
                    else stats\<lparr>TotalErrors := TotalErrors stats + 1\<rparr>)
      in acts(Name metric \<mapsto> stats1\<lparr>BytesTotal := BytesTotal stats1 + BytesRead metric\<rparr>))"

text \<open>
  One turn of the aggregator goroutine: it receives the oldest metric and processes it;
  on an empty closed channel the loop ends and \<open>done\<close> is closed; on an empty open
  channel it stays blocked.
\<close>

definition collectStep ::
  "(int \<Rightarrow> int \<Rightarrow> int \<Rightarrow> 'h) \<Rightarrow> ('h \<Rightarrow> int \<Rightarrow> 'h) \<Rightarrow> 'h Collector \<Rightarrow> 'h Collector" where
  "collectStep hnew hrec c =
     (case metrics c of
        [] \<Rightarrow> (if closed c then c\<lparr>doneClosed := True\<rparr> else c)
      | metric # rest \<Rightarrow>
          c\<lparr>metrics := rest, actions := collectOne hnew hrec (actions c) metric\<rparr>)"

text \<open>
  \<open>Stop\<close>: \<open>close(c.metrics); <-c.done\<close>. It returns once \<open>collect\<close> has received
  everything still buffered and closed \<open>done\<close>. Closing a closed channel panics.
\<close>

definition Stop ::
  "(int \<Rightarrow> int \<Rightarrow> int \<Rightarrow> 'h) \<Rightarrow> ('h \<Rightarrow> int \<Rightarrow> 'h) \<Rightarrow> 'h Collector \<Rightarrow> panic + 'h Collector" where
  "Stop hnew hrec c =
     (if closed c then Inl CloseOfClosedChannel
      else Inr (c\<lparr>metrics := [], closed := True,
                  actions := foldl (collectOne hnew hrec) (actions c) (metrics c),
                  doneClosed := True\<rparr>))"

text \<open>
  A run of the pipeline before \<open>Stop\<close>: workers submit metrics and the aggregator takes
  turns, in any interleaving. \<open>runOps\<close> also keeps the list of the metrics that were
  submitted and not dropped.
\<close>

datatype sinkOp = Submit RequestMetric | Drain

fun runOps ::
  "(int \<Rightarrow> int \<Rightarrow> int \<Rightarrow> 'h) \<Rightarrow> ('h \<Rightarrow> int \<Rightarrow> 'h) \<Rightarrow> 'h Collector \<times> RequestMetric list \<Rightarrow>
   sinkOp list \<Rightarrow> panic + ('h Collector \<times> RequestMetric list)" where
  "runOps hnew hrec (c, kept) [] = Inr (c, kept)"
| "runOps hnew hrec (c, kept) (Submit metric # ops) =
     (case Record c metric of
        Inl e \<Rightarrow> Inl e
      | Inr c' \<Rightarrow>
          runOps hnew hrec
            (c', if length (metrics c) < metricsCapacity then kept @ [metric] else kept) ops)"
| "runOps hnew hrec (c, kept) (Drain # ops) = runOps hnew hrec (collectStep hnew hrec c, kept) ops"

text \<open>What the reporter reads for an action: the two counters, and their sum.\<close>

definition okCount :: "'h Collector \<Rightarrow> string \<Rightarrow> 64 word" where
  "okCount c name = (case actions c name of None \<Rightarrow> 0 | Some st \<Rightarrow> TotalOK st)"

definition errCount :: "'h Collector \<Rightarrow> string \<Rightarrow> 64 word" where
  "errCount c name = (case actions c name of None \<Rightarrow> 0 | Some st \<Rightarrow> TotalErrors st)"

definition named :: "string \<Rightarrow> RequestMetric list \<Rightarrow> RequestMetric list" where
  "named name ms = filter (\<lambda>metric. Name metric = name) ms"

definition isSuccess :: "RequestMetric \<Rightarrow> bool" where
  "isSuccess metric \<longleftrightarrow> Error metric = [] \<and> 200 \<le> StatusCode metric \<and> StatusCode metric < 400"

text \<open>
  A stand-in for the histogram that keeps every value handed to \<open>RecordValue\<close>, in
  order: it makes the calls the aggregator issues observable.
\<close>

definition callsNew :: "int \<Rightarrow> int \<Rightarrow> int \<Rightarrow> int list" where
  "callsNew lo hi sig = []"

definition callsRecordValue :: "int list \<Rightarrow> int \<Rightarrow> int list" where
  "callsRecordValue h v = h @ [v]"

definition okErr :: "(string \<rightharpoonup> 'h ActionStats) \<Rightarrow> string \<Rightarrow> 64 word" where
  "okErr acts name = (case acts name of None \<Rightarrow> 0 | Some st \<Rightarrow> TotalOK st + TotalErrors st)"

text \<open>
  The invariant of the pipeline while it runs: the channel is open, and for every action
  the counted metrics and the buffered ones together are the kept ones.
\<close>

definition balanced :: "'h Collector \<times> RequestMetric list \<Rightarrow> bool" where
  "balanced s \<longleftrightarrow> \<not> closed (fst s) \<and>
     (\<forall>n. okErr (actions (fst s)) n + of_nat (length (named n (metrics (fst s))))
           = of_nat (length (named n (snd s))))"

text \<open>Sample metrics: a 25 ms success, a 500 response, and a success that took 70 s.\<close>

definition pingOK :: RequestMetric where
  "pingOK = \<lparr>Name = ''Ping'', Method = ''GET'', URL = ''https://example/ping'',
             StartTime = 1000000000, EndTime = 1025000000, StatusCode = 200,
             BytesRead = 5, Error = []\<rparr>"

definition pingErr :: RequestMetric where
  "pingErr = \<lparr>Name = ''Ping'', Method = ''GET'', URL = ''https://example/ping'',
              StartTime = 2000000000, EndTime = 2040000000, StatusCode = 500,
              BytesRead = 7, Error = []\<rparr>"

definition slowOK :: RequestMetric where
  "slowOK = \<lparr>Name = ''Slow'', Method = ''GET'', URL = ''https://example/slow'',
             StartTime = 0, EndTime = 70000000000, StatusCode = 200,
             BytesRead = 0, Error = []\<rparr>"

section \<open>internal/orchestrator: the run sequence\<close>

record Config =
  Users :: int
  RPS :: int
  Duration :: int
  ScriptPath :: string
  LoginURL :: string
  LoginHeader :: string
  OutputFile :: string
  Verbose :: bool
  InsecureTLS :: bool
  CredentialsFile :: string

text \<open>
  The statements of \<open>Orchestrator.Run\<close> that act on the collector, the workers and the
  reporter, in the order the goroutine of \<open>Run\<close> executes them (log lines are left out).
  \<open>CollectorStop\<close> is the call \<open>o.collector.Stop()\<close>: it closes the sink and waits for the
  aggregator to drain it.
\<close>

datatype step =
    CollectorStart
  | StartLiveReporting
  | ContextWithTimeout int
  | SpawnWorker int
  | AwaitContextDone
  | AwaitWorkers
  | PrintFinalReport
  | SaveReport string
  | ContextCancel
  | CollectorStop

datatype runError = FailedToSaveResults

text \<open>
  \<open>Run\<close>. The two \<open>defer\<close> statements (\<open>defer o.collector.Stop()\<close>, then \<open>defer cancel()\<close>)
  run when the function returns, last deferred first, on the normal return and on the
  early return after a failed \<open>SaveReport\<close> alike. \<open>saveOk\<close> is the outcome of writing
  the file. The result is the error returned and the sequence of steps executed.
\<close>

definition Run :: "Config \<Rightarrow> bool \<Rightarrow> runError option \<times> step list" where
  "Run cfg saveOk =
     (let body = [CollectorStart, StartLiveReporting, ContextWithTimeout (Duration cfg)]
                 @ map (\<lambda>i. SpawnWorker (int i + 1)) [0..<nat (Users cfg)]
                 @ [AwaitContextDone, AwaitWorkers, PrintFinalReport];
          save = (if OutputFile cfg \<noteq> [] then [SaveReport (OutputFile cfg)] else []);
          deferred = [ContextCancel, CollectorStop]
      in (if OutputFile cfg \<noteq> [] \<and> \<not> saveOk then Some FailedToSaveResults else None,
          body @ save @ deferred))"

text \<open>
  The effect of the steps on the collector and on what the reporter shows.
  \<open>PrintFinalReport\<close> and \<open>SaveReport\<close> read \<open>GetStats()\<close>, the statistics aggregated so
  far. \<open>sinkOps\<close> is what happened in the sink from the start of the workers until the
  report reads the statistics: the submissions of the workers and the turns the
  aggregator goroutine got, in their order.
\<close>

record 'h runState =
  collector :: "'h Collector"
  printed :: "(string \<rightharpoonup> 'h ActionStats) option"
  saved :: "(string \<rightharpoonup> 'h ActionStats) option"

fun execStep ::
  "(int \<Rightarrow> int \<Rightarrow> int \<Rightarrow> 'h) \<Rightarrow> ('h \<Rightarrow> int \<Rightarrow> 'h) \<Rightarrow> sinkOp list \<Rightarrow> step \<Rightarrow> 'h runState \<Rightarrow>
   panic + 'h runState" where
  "execStep hnew hrec sinkOps AwaitWorkers s =
     (case runOps hnew hrec (collector s, []) sinkOps of
        Inl e \<Rightarrow> Inl e
      | Inr (c, kept) \<Rightarrow> Inr (s\<lparr>collector := c\<rparr>))"
| "execStep hnew hrec sinkOps PrintFinalReport s =
     Inr (s\<lparr>printed := Some (actions (collector s))\<rparr>)"
| "execStep hnew hrec sinkOps (SaveReport path) s =
     Inr (s\<lparr>saved := Some (actions (collector s))\<rparr>)"
| "execStep hnew hrec sinkOps CollectorStop s =
     (case Stop hnew hrec (collector s) of
        Inl e \<Rightarrow> Inl e
      | Inr c \<Rightarrow> Inr (s\<lparr>collector := c\<rparr>))"
| "execStep hnew hrec sinkOps other s = Inr s"

fun execSteps ::
  "(int \<Rightarrow> int \<Rightarrow> int \<Rightarrow> 'h) \<Rightarrow> ('h \<Rightarrow> int \<Rightarrow> 'h) \<Rightarrow> sinkOp list \<Rightarrow> step list \<Rightarrow> 'h runState \<Rightarrow>
   panic + 'h runState" where
  "execSteps hnew hrec sinkOps [] s = Inr s"
| "execSteps hnew hrec sinkOps (st # sts) s =
     (case execStep hnew hrec sinkOps st s of
        Inl e \<Rightarrow> Inl e
      | Inr s' \<Rightarrow> execSteps hnew hrec sinkOps sts s')"

definition initialRun :: "'h runState" where
  "initialRun = \<lparr>collector = NewCollector, printed = None, saved = None\<rparr>"

text \<open>A one-user configuration that writes an output file.\<close>

definition oneUser :: Config where
  "oneUser = \<lparr>Users = 1, RPS = 2, Duration = 2000000000, ScriptPath = ''ping.yml'',
               LoginURL = [], LoginHeader = [], OutputFile = ''out.json'',
               Verbose = False, InsecureTLS = False, CredentialsFile = []\<rparr>"

section \<open>Go standard library functions the sources call\<close>

text \<open>
  The functions of \<open>strings\<close>, \<open>strconv\<close> and \<open>math/rand\<close> that the repository calls,
  written out from their documented behaviour on byte strings.
\<close>

subsection \<open>strings.Index, strings.Contains, strings.ReplaceAll\<close>

text \<open>\<open>strings.Index(s, substr)\<close>: the first position where \<open>substr\<close> starts; \<open>None\<close> is \<open>-1\<close>.\<close>

fun indexOf :: "string \<Rightarrow> string \<Rightarrow> nat option" where
  "indexOf [] substr = (if substr = [] then Some 0 else None)"
| "indexOf (c # cs) substr =
     (if prefix substr (c # cs) then Some 0 else map_option Suc (indexOf cs substr))"

definition Index :: "string \<Rightarrow> string \<Rightarrow> int" where
  "Index s substr = (case indexOf s substr of None \<Rightarrow> - 1 | Some i \<Rightarrow> int i)"

definition Contains :: "string \<Rightarrow> string \<Rightarrow> bool" where
  "Contains s substr \<longleftrightarrow> indexOf s substr \<noteq> None"

text \<open>
  \<open>strings.ReplaceAll(s, old, new)\<close> for a non-empty \<open>old\<close> (the sources pass literals
  only): the occurrences are found from the left and do not overlap, and the text put in
  is not searched again.
\<close>

fun ReplaceAll :: "string \<Rightarrow> string \<Rightarrow> string \<Rightarrow> string" where
  "ReplaceAll [] old new = []"
| "ReplaceAll (c # cs) old new =
     (if old \<noteq> [] \<and> prefix old (c # cs)
      then new @ ReplaceAll (drop (length old) (c # cs)) old new
      else c # ReplaceAll cs old new)"

subsection \<open>strings.Fields\<close>

text \<open>
  The number of bytes of a white-space character at the head of a string, \<open>0\<close> when there
  is none: the ASCII ones, and the UTF-8 encodings of the other characters for which
  \<open>unicode.IsSpace\<close> holds (U+0085, U+00A0, U+1680, U+2000 to U+200A, U+2028, U+2029,
  U+202F, U+205F, U+3000).
\<close>

definition byte :: "char \<Rightarrow> nat" where
  "byte c = of_char c"

fun spaceWidth :: "string \<Rightarrow> nat" where
  "spaceWidth [] = 0"
| "spaceWidth (c # cs) =
     (let b = byte c in
      if b = 9 \<or> b = 10 \<or> b = 11 \<or> b = 12 \<or> b = 13 \<or> b = 32 then 1
      else if b = 194 then
        (case cs of d # _ \<Rightarrow> (if byte d = 133 \<or> byte d = 160 then 2 else 0) | [] \<Rightarrow> 0)
      else if b = 225 then
        (case cs of d # e # _ \<Rightarrow> (if byte d = 154 \<and> byte e = 128 then 3 else 0) | _ \<Rightarrow> 0)
      else if b = 226 then
        (case cs of
           d # e # _ \<Rightarrow>
             (if byte d = 128 \<and> (128 \<le> byte e \<and> byte e \<le> 138 \<or> byte e = 168
                   \<or> byte e = 169 \<or> byte e = 175)
                 \<or> byte d = 129 \<and> byte e = 159
              then 3 else 0)
         | _ \<Rightarrow> 0)
      else if b = 227 then
        (case cs of d # e # _ \<Rightarrow> (if byte d = 128 \<and> byte e = 128 then 3 else 0) | _ \<Rightarrow> 0)
      else 0)"

text \<open>
  \<open>strings.Fields\<close>: the maximal runs of characters that are not white space.
  \<open>skip\<close> counts the remaining bytes of a white-space character already recognised,
  \<open>cur\<close> is the field being read.
\<close>

fun fieldsFrom :: "nat \<Rightarrow> string \<Rightarrow> string \<Rightarrow> string list" where
  "fieldsFrom skip cur [] = (if cur = [] then [] else [cur])"
| "fieldsFrom skip cur (c # cs) =
     (if skip > 0 then fieldsFrom (skip - 1) cur cs
      else if spaceWidth (c # cs) > 0
        then (if cur = [] then [] else [cur]) @ fieldsFrom (spaceWidth (c # cs) - 1) [] cs
        else fieldsFrom 0 (cur @ [c]) cs)"

definition Fields :: "string \<Rightarrow> string list" where
  "Fields s = fieldsFrom 0 [] s"

subsection \<open>strconv.Itoa and strconv.Atoi\<close>

definition digitChar :: "nat \<Rightarrow> char" where
  "digitChar d = ''0123456789'' ! d"

fun digitsOf :: "nat \<Rightarrow> string" where
  "digitsOf n = (if n < 10 then [digitChar n] else digitsOf (n div 10) @ [digitChar (n mod 10)])"

declare digitsOf.simps [simp del]

definition Itoa :: "int \<Rightarrow> string" where
  "Itoa i = (if i < 0 then CHR ''-'' # digitsOf (nat (- i)) else digitsOf (nat i))"

definition isDigit :: "char \<Rightarrow> bool" where
  "isDigit c \<longleftrightarrow> 48 \<le> byte c \<and> byte c \<le> 57"

definition digitsValue :: "string \<Rightarrow> nat" where
  "digitsValue ds = foldl (\<lambda>n c. 10 * n + (byte c - 48)) 0 ds"

text \<open>
  \<open>strconv.Atoi\<close>: an optional sign, then one or more decimal digits and nothing else;
  a value outside the 64-bit range is an error. \<open>None\<close> is the error.
\<close>

definition Atoi :: "string \<Rightarrow> int option" where
  "Atoi s =
     (let neg = (s \<noteq> [] \<and> hd s = CHR ''-'');
          ds = (if s \<noteq> [] \<and> (hd s = CHR ''-'' \<or> hd s = CHR ''+'') then tl s else s)
      in if ds = [] \<or> \<not> list_all isDigit ds then None
         else let v = (if neg then - int (digitsValue ds) else int (digitsValue ds))
              in if v < - 9223372036854775808 \<or> 9223372036854775807 < v then None
                 else Some v)"

subsection \<open>Go int arithmetic and math/rand\<close>

text \<open>The value of a Go \<open>int\<close> expression after 64-bit two's complement wrap-around.\<close>

definition wrap64 :: "int \<Rightarrow> int" where
  "wrap64 x = signed_take_bit 63 x"

text \<open>
  The random source is the sequence of raw numbers it will deliver. \<open>rand.Intn(n)\<close>
  panics for \<open>n \<le> 0\<close> and otherwise returns a number in \<open>[0, n)\<close>: the next raw number
  modulo \<open>n\<close>, so that every outcome of the generator is covered by some sequence.
\<close>

type_synonym rnd = "nat list"

definition Intn :: "rnd \<Rightarrow> int \<Rightarrow> panic + (int \<times> rnd)" where
  "Intn r n =
     (if n \<le> 0 then Inl InvalidArgumentToIntn
      else case r of [] \<Rightarrow> Inr (0, []) | x # r' \<Rightarrow> Inr (int x mod n, r'))"

section \<open>internal/script: actions and template expansion\<close>

text \<open>
  \<open>Action\<close>. \<open>Name\<close>, \<open>Method\<close> and \<open>URL\<close> carry the prefix \<open>Act\<close> here, the metric record
  having fields of the same names. \<open>Headers\<close> is a Go map; the list gives its entries in
  the order the \<open>range\<close> loop visits them.
\<close>

record Action =
  ActName :: string
  ActMethod :: string
  ActURL :: string
  JSONBody :: string
  Body :: string
  Headers :: "(string \<times> string) list"
  ExpectStatus :: int
  Timeout :: string
  Delay :: string
  DelayMin :: string
  DelayMax :: string

text \<open>
  A computation of the sources that may panic and, where it loops, may not return:
  \<open>None\<close> is "does not return", \<open>Some (Inl p)\<close> a panic, \<open>Some (Inr x)\<close> the result.
\<close>

definition bindR :: "(panic + 'a) option \<Rightarrow> ('a \<Rightarrow> (panic + 'b) option) \<Rightarrow> (panic + 'b) option" where
  "bindR m f = (case m of None \<Rightarrow> None | Some (Inl p) \<Rightarrow> Some (Inl p) | Some (Inr x) \<Rightarrow> f x)"

text \<open>
  The replacement of one \<open>{{randInt ...}}\<close> or \<open>{{randDelay ...}}\<close> expression, from the
  text between the tag and the closing braces: the two branches of
  \<open>if len(parts) == 2\<close>. \<open>max-min+1\<close> and \<open>rand.Intn(...) + min\<close> are 64-bit.
\<close>

definition randReplacement :: "string \<Rightarrow> string \<Rightarrow> rnd \<Rightarrow> panic + (string \<times> rnd)" where
  "randReplacement fallback inner r =
     (let parts = Fields inner in
      if length parts = 2 then
        (case (Atoi (parts ! 0), Atoi (parts ! 1)) of
           (Some mn, Some mx) \<Rightarrow>
             (if mx > mn then
                (case Intn r (wrap64 (wrap64 (mx - mn) + 1)) of
                   Inl p \<Rightarrow> Inl p
                 | Inr (v, r') \<Rightarrow> Inr (Itoa (wrap64 (v + mn)), r'))
              else Inr (fallback, r))
         | _ \<Rightarrow> Inr (fallback, r))
      else Inr (fallback, r))"

text \<open>
  The loop \<open>for strings.Contains(result, tag) { ... }\<close>, which the source has twice: with
  the tag \<open>{{randInt\<close>, the slice offset \<open>9\<close> and the fallback \<open>1\<close>, and with the tag
  \<open>{{randDelay\<close>, the offset \<open>11\<close> and the fallback \<open>1000\<close>; the offset is the length
  of the tag. The slice \<open>expr[len(tag) : len(expr)-2]\<close> panics when its bounds cross.
\<close>

partial_function (option) randLoop ::
  "string \<Rightarrow> string \<Rightarrow> string \<Rightarrow> rnd \<Rightarrow> (panic + string \<times> rnd) option" where
  "randLoop tag fallback result r =
     (if Contains result tag then
        (case indexOf result tag of
           None \<Rightarrow> Some (Inr (result, r))
         | Some startPos \<Rightarrow>
             (case indexOf (drop startPos result) ''}}'' of
                None \<Rightarrow> Some (Inr (result, r))
              | Some e \<Rightarrow>
                  (let endPos = e + startPos + 2;
                       expr = take (endPos - startPos) (drop startPos result)
                   in if length expr - 2 < length tag then Some (Inl SliceBoundsOutOfRange)
                      else
                        (case randReplacement fallback
                                (take (length expr - 2 - length tag) (drop (length tag) expr)) r of
                           Inl p \<Rightarrow> Some (Inl p)
                         | Inr (val, r') \<Rightarrow>
                             randLoop tag fallback
                               (take startPos result @ val @ drop endPos result) r'))))
      else Some (Inr (result, r)))"

declare randLoop.simps [code]

definition movieList :: "string list" where
  "movieList = [''movie1'', ''movie2'', ''movie3'', ''movie4'', ''movie5'']"

text \<open>
  \<open>expandString\<close>. \<open>now\<close> is the reading of \<open>time.Now().UnixMilli()\<close>, \<open>r\<close> the random
  source, which is returned as the expansion leaves it.
\<close>

definition expandString :: "string \<Rightarrow> int \<Rightarrow> int \<Rightarrow> rnd \<Rightarrow> (panic + string \<times> rnd) option" where
  "expandString s userID now r =
     (let result1 = ReplaceAll s ''{{userId}}'' (Itoa userID);
          result2 = ReplaceAll result1 ''{{epochms}}'' (Itoa now)
      in bindR (randLoop ''{{randInt'' ''1'' result2 r) (\<lambda>(result3, r1).
         bindR (if Contains result3 ''{{pick movies}}''
                then (case Intn r1 (int (length movieList)) of
                        Inl p \<Rightarrow> Some (Inl p)
                      | Inr (i, r2) \<Rightarrow>
                          Some (Inr (ReplaceAll result3 ''{{pick movies}}'' (movieList ! nat i), r2)))
                else Some (Inr (result3, r1))) (\<lambda>(result4, r2).
         randLoop ''{{randDelay'' ''1000'' result4 r2)))"



section \<open>internal/worker: the parts of a worker the claims are about\<close>

text \<open>
  The state of a worker that \<open>executeAction\<close> reads and writes. \<open>workerId\<close> is the field
  \<open>id\<close>, \<open>workerCredentials\<close> the field \<open>credentials\<close>, a pointer that is \<open>nil\<close> (\<open>None\<close>)
  when no credentials file was given.
\<close>

record Worker =
  workerId :: int
  loginHeader :: string
  sessionHeaders :: "(string \<times> string) list"
  csrfToken :: string
  workerCredentials :: "CredentialsManager option"



text \<open>
  "Create request": the body handed to \<open>http.NewRequestWithContext\<close>; \<open>None\<close> is the
  \<open>nil\<close> reader. \<open>url.QueryEscape\<close> is the parameter \<open>queryEscape\<close>.
\<close>

definition requestBody :: "(string \<Rightarrow> string) \<Rightarrow> Worker \<Rightarrow> Action \<Rightarrow> string option" where
  "requestBody queryEscape w ea =
     (if JSONBody ea \<noteq> [] then Some (JSONBody ea)
      else if Body ea \<noteq> [] then
        Some (if csrfToken w \<noteq> []
              then ReplaceAll (Body ea) ''CSRF_TOKEN_PLACEHOLDER'' (queryEscape (csrfToken w))
              else Body ea)
      else None)"

subsection \<open>The three regular expressions of extractCSRFTokenFromHTML\<close>










subsection \<open>Sample data\<close>

definition twoCredentials :: CredentialsManager where
  "twoCredentials =
     \<lparr>credentials = [\<lparr>Username = ''a@x'', Password = ''pw1''\<rparr>,
                     \<lparr>Username = ''b@x'', Password = ''pw2''\<rparr>], current = 0\<rparr>"

definition worker1 :: Worker where
  "worker1 = \<lparr>workerId = 1, loginHeader = [], sessionHeaders = [], csrfToken = [],
              workerCredentials = Some twoCredentials\<rparr>"

definition profileAction :: Action where
  "profileAction =
     \<lparr>ActName = ''Profile'', ActMethod = ''POST'', ActURL = ''/u/{{username}}'',
      JSONBody = [], Body = ''u={{username}}&e={{email}}'',
      Headers = [(''X-User'', ''{{email}}'')], ExpectStatus = 200,
      Timeout = [], Delay = [], DelayMin = [], DelayMax = []\<rparr>"



section \<open>Templates as sequences of pieces\<close>

text \<open>
  To speak of "each occurrence" of a placeholder, a template is given as the sequence
  of its pieces: literal text without an opening brace, and brace-delimited sequences
  \<open>{{name}}\<close> whose name contains no brace. The text of the template is \<open>renderAll\<close>.
\<close>

datatype piece = Lit string | Braced string

fun render :: "piece \<Rightarrow> string" where
  "render (Lit s) = s"
| "render (Braced n) = ''{{'' @ n @ ''}}''"

definition renderAll :: "piece list \<Rightarrow> string" where
  "renderAll ps = concat (map render ps)"

fun wfPiece :: "piece \<Rightarrow> bool" where
  "wfPiece (Lit s) \<longleftrightarrow> CHR ''{'' \<notin> set s"
| "wfPiece (Braced n) \<longleftrightarrow> CHR ''{'' \<notin> set n \<and> CHR ''}'' \<notin> set n"


definition substPiece :: "string \<Rightarrow> string \<Rightarrow> piece \<Rightarrow> piece" where
  "substPiece name new p = (if p = Braced name then Lit new else p)"

text \<open>
  The arguments of a \<open>{{randInt ...}}\<close> expression, from the text between the tag and
  the closing braces: two fields that both parse as integers.
\<close>

definition randArgs :: "string \<Rightarrow> (int \<times> int) option" where
  "randArgs inner =
     (let parts = Fields inner in
      if length parts = 2 then
        (case (Atoi (parts ! 0), Atoi (parts ! 1)) of
           (Some mn, Some mx) \<Rightarrow> Some (mn, mx)
         | _ \<Rightarrow> None)
      else None)"

text \<open>
  The pieces of a template with \<open>randInt\<close> expressions and unrecognised sequences only:
  brace-free text, and \<open>{{name}}\<close> where the name is none of \<open>userId\<close>, \<open>epochms\<close> and
  \<open>pick movies\<close>, does not start with \<open>randDelay\<close> and, when it starts with \<open>randInt\<close>
  and has arguments \<open>A < B\<close>, the span \<open>B - A + 1\<close> fits in 64 bits.
\<close>

fun tplPiece :: "piece \<Rightarrow> bool" where
  "tplPiece (Lit s) \<longleftrightarrow> CHR ''{'' \<notin> set s"
| "tplPiece (Braced n) \<longleftrightarrow>
     CHR ''{'' \<notin> set n \<and> CHR ''}'' \<notin> set n
     \<and> n \<noteq> ''userId'' \<and> n \<noteq> ''epochms'' \<and> n \<noteq> ''pick movies''
     \<and> \<not> prefix ''randDelay'' n
     \<and> (if prefix ''randInt'' n
        then (case randArgs (drop 7 n) of
                Some (mn, mx) \<Rightarrow> (if mn < mx then mx - mn < 9223372036854775807 else True)
              | None \<Rightarrow> True)
        else True)"

text \<open>
  What the claim on \<open>randInt\<close> asks of each piece: a \<open>randInt\<close> expression with
  arguments \<open>A < B\<close> becomes the decimal form of an integer of \<open>[A, B]\<close>, any other
  \<open>randInt\<close> expression becomes \<open>1\<close>, and everything else stays.
\<close>

fun expandsTo :: "piece \<Rightarrow> string \<Rightarrow> bool" where
  "expandsTo (Lit s) out \<longleftrightarrow> out = s"
| "expandsTo (Braced n) out \<longleftrightarrow>
     (if prefix ''randInt'' n
      then (case randArgs (drop 7 n) of
              Some (mn, mx) \<Rightarrow>
                (if mn < mx then (\<exists>v. mn \<le> v \<and> v \<le> mx \<and> out = Itoa v) else out = ''1'')
            | None \<Rightarrow> out = ''1'')
      else out = ''{{'' @ n @ ''}}'')"

text \<open>Pieces that no step of \<open>expandString\<close> touches any more.\<close>

fun settled :: "piece \<Rightarrow> bool" where
  "settled (Lit s) \<longleftrightarrow> CHR ''{'' \<notin> set s"
| "settled (Braced n) \<longleftrightarrow>
     CHR ''{'' \<notin> set n \<and> CHR ''}'' \<notin> set n
     \<and> n \<noteq> ''userId'' \<and> n \<noteq> ''epochms'' \<and> n \<noteq> ''pick movies''
     \<and> \<not> prefix ''randDelay'' n \<and> \<not> prefix ''randInt'' n"

section \<open>Theorems: credentials\<close>

lemma smod_nonneg_eq_mod: "0 \<le> (a::int) \<Longrightarrow> 0 < b \<Longrightarrow> a smod b = a mod b"
  by (simp add: signed_modulo_int_def sgn_if)

text \<open>
  C7. For a user id \<open>u\<close> (user ids are the orchestrator's \<open>1..N\<close>, in particular not
  negative) and a loaded credential list of length \<open>N \<ge> 1\<close>, \<open>GetCredentialsForUser\<close>
  returns the entry at index \<open>u mod N\<close>; the result does not depend on the round-robin
  cursor \<open>current\<close>, which is the only state calls can change.
\<close>

theorem GetCredentialsForUser_index:
  assumes "credentials cm \<noteq> []" and "0 \<le> u"
  shows "GetCredentialsForUser (cm\<lparr>current := c\<rparr>) u
           = Inr (credentials cm ! (nat u mod length (credentials cm)))"
proof -
  let ?n = "int (length (credentials cm))"
  have n: "0 < ?n" using assms(1) by simp
  have m: "u smod ?n = u mod ?n" using assms(2) n by (rule smod_nonneg_eq_mod)
  have r: "0 \<le> u mod ?n \<and> u mod ?n < ?n" using n by simp
  have "nat (u mod ?n) = nat u mod length (credentials cm)"
    using assms(2) by (simp add: nat_mod_distrib)
  then show ?thesis
    using n m r by (simp add: GetCredentialsForUser_def Let_def)
qed

theorem GetCredentialsForUser_index_witness:
  "GetCredentialsForUser
     \<lparr>credentials = [\<lparr>Username = ''a@x'', Password = ''pw1''\<rparr>,
                     \<lparr>Username = ''b@x'', Password = ''pw2''\<rparr>], current = 1\<rparr> 3
     = Inr \<lparr>Username = ''b@x'', Password = ''pw2''\<rparr>"
proof -
  have m: "(3::nat) mod Suc (Suc 0) = 1" by code_simp
  show ?thesis
    using GetCredentialsForUser_index
      [of "\<lparr>credentials = [\<lparr>Username = ''a@x'', Password = ''pw1''\<rparr>,
                           \<lparr>Username = ''b@x'', Password = ''pw2''\<rparr>], current = 0\<rparr>" 3 1]
    by (simp add: m)
qed

section \<open>Theorems: rate limiter\<close>

lemma Allow_rate0:
  assumes "rate rl = 0" and "tokens rl \<le> 0"
  shows "Allow now rl = (False, rl)"
  using assms by (simp add: Allow_def tokensToAdd_def Let_def)

lemma Wait_rate0_not_Some:
  assumes "Wait clock i rl = Some y"
  shows "\<not> (rate rl = 0 \<and> tokens rl \<le> 0)"
proof (rule Wait.raw_induct
    [where P = "\<lambda>clock i rl y. \<not> (rate rl = 0 \<and> tokens rl \<le> 0)"
       and clock = clock and i = i and rl = rl and y = y])
  show "Wait clock i rl = Some y" by fact
next
  fix W :: "(nat \<Rightarrow> int) \<Rightarrow> nat \<Rightarrow> RateLimiter \<Rightarrow> (RateLimiter \<times> nat) option"
  fix ck j r z
  assume IH: "\<And>ck j r z. W ck j r = Some z \<Longrightarrow> \<not> (rate r = 0 \<and> tokens r \<le> 0)"
  assume eq: "(if fst (Allow (ck j) r) then Some (snd (Allow (ck j) r), Suc j)
               else W ck (Suc j) (snd (Allow (ck j) r))) = Some z"
  show "\<not> (rate r = 0 \<and> tokens r \<le> 0)"
  proof
    assume zero: "rate r = 0 \<and> tokens r \<le> 0"
    then have a: "Allow (ck j) r = (False, r)" by (simp add: Allow_rate0)
    from eq a have "W ck (Suc j) r = Some z" by simp
    from IH [OF this] zero show False by simp
  qed
qed

text \<open>
  C1, as the code has it. A limiter constructed with \<open>R = 0\<close> has an empty bucket of
  capacity \<open>0\<close> that is never refilled: every \<open>Allow\<close> returns \<open>false\<close> and leaves the limiter
  as it was (no token is consumed), and \<open>Wait\<close> never returns, whatever the clock reads.
\<close>

theorem RateLimiter_zero_blocks:
  "Allow now (NewRateLimiter 0 t0) = (False, NewRateLimiter 0 t0)
   \<and> Wait clock i (NewRateLimiter 0 t0) = None"
proof
  show "Allow now (NewRateLimiter 0 t0) = (False, NewRateLimiter 0 t0)"
    by (rule Allow_rate0) (simp_all add: NewRateLimiter_def)
  show "Wait clock i (NewRateLimiter 0 t0) = None"
  proof (cases "Wait clock i (NewRateLimiter 0 t0)")
    case None
    then show ?thesis .
  next
    case (Some y)
    from Wait_rate0_not_Some [OF this] show ?thesis by (simp add: NewRateLimiter_def)
  qed
qed

theorem RateLimiter_zero_blocks_witness:
  "Allow 5000000000 (NewRateLimiter 0 0) = (False, NewRateLimiter 0 0)
   \<and> Wait sleepClock 0 (NewRateLimiter 0 0) = None"
  using RateLimiter_zero_blocks [of 5000000000 0 sleepClock 0] by simp

text \<open>
  C1 as stated fails: with \<open>R = 0\<close> the first \<open>Allow\<close> of \<open>Wait\<close> is refused, so \<open>Wait\<close> does
  not return without sleeping; it does not return at all.
\<close>

theorem RateLimiter_zero_counterexample:
  "fst (Allow (sleepClock 0) (NewRateLimiter 0 0)) = False
   \<and> Wait sleepClock 0 (NewRateLimiter 0 0) \<noteq> Some (NewRateLimiter 0 0, 1)"
proof
  show "fst (Allow (sleepClock 0) (NewRateLimiter 0 0)) = False"
    by (simp add: Allow_rate0 NewRateLimiter_def)
  have "Wait sleepClock 0 (NewRateLimiter 0 0) = None"
  proof (cases "Wait sleepClock 0 (NewRateLimiter 0 0)")
    case None
    then show ?thesis .
  next
    case (Some y)
    from Wait_rate0_not_Some [OF this] show ?thesis by (simp add: NewRateLimiter_def)
  qed
  then show "Wait sleepClock 0 (NewRateLimiter 0 0) \<noteq> Some (NewRateLimiter 0 0, 1)"
    by simp
qed

section \<open>Theorems: the aggregator\<close>




subsection \<open>The counters and the kept metrics\<close>

lemma okErr_collectOne:
  "okErr (collectOne hn hr acts m) n = okErr acts n + (if Name m = n then 1 else 0)"
  by (auto simp: okErr_def collectOne_def getOrCreate_def Let_def split: option.splits)

lemma okErr_foldl:
  "okErr (foldl (collectOne hn hr) acts ms) n = okErr acts n + of_nat (length (named n ms))"
  by (induction ms arbitrary: acts) (auto simp: okErr_collectOne named_def)

lemma balanced_Submit:
  assumes "balanced (c, kept)"
  shows "\<exists>c'. Record c m = Inr c' \<and>
           balanced (c', if length (metrics c) < metricsCapacity then kept @ [m] else kept)"
  using assms by (auto simp: balanced_def Record_def named_def)

lemma balanced_Drain:
  assumes "balanced (c, kept)"
  shows "balanced (collectStep hn hr c, kept)"
proof (cases "metrics c")
  case Nil
  with assms show ?thesis by (simp add: balanced_def collectStep_def)
next
  case (Cons m rest)
  have "okErr (collectOne hn hr (actions c) m) n + of_nat (length (named n rest))
          = of_nat (length (named n kept))" for n
  proof -
    from assms have "okErr (actions c) n + of_nat (length (named n (m # rest)))
          = of_nat (length (named n kept))"
      by (simp add: balanced_def Cons)
    then show ?thesis by (simp add: okErr_collectOne named_def add.assoc split: if_splits)
  qed
  with assms show ?thesis by (simp add: balanced_def collectStep_def Cons)
qed

lemma runOps_balanced:
  "balanced s \<Longrightarrow> \<exists>s'. runOps hn hr s ops = Inr s' \<and> balanced s'"
proof (induction ops arbitrary: s)
  case Nil
  then show ?case by (cases s) simp
next
  case (Cons op ops)
  obtain c kept where s: "s = (c, kept)" by (cases s)
  show ?case
  proof (cases op)
    case (Submit m)
    from balanced_Submit [OF Cons.prems [unfolded s], of m] obtain c' where
      r: "Record c m = Inr c'" and
      b: "balanced (c', if length (metrics c) < metricsCapacity then kept @ [m] else kept)"
      by blast
    from Cons.IH [OF b] show ?thesis using r by (simp add: s Submit)
  next
    case Drain
    from Cons.IH [OF balanced_Drain [OF Cons.prems [unfolded s]]]
    show ?thesis by (simp add: s Drain)
  qed
qed

lemma sint_of_nat64:
  assumes "n < 2 ^ 63"
  shows "sint (of_nat n :: 64 word) = int n"
proof -
  have "int n < 2 ^ 63" using assms by simp
  moreover have "- (2 ^ 63) \<le> int n" by (rule order_trans [of _ 0]) simp_all
  ultimately have "signed_take_bit 63 (int n) = int n"
    by (simp add: signed_take_bit_int_eq_self)
  moreover have "sint (of_nat n :: 64 word) = signed_take_bit 63 (int n)"
    using sint_sbintrunc' [of "int n", where ?'a = 64] by simp
  ultimately show ?thesis by simp
qed

lemma balanced_New: "balanced (NewCollector, [])"
  by (simp add: balanced_def NewCollector_def okErr_def named_def)

lemma okCount_errCount: "okCount c n + errCount c n = okErr (actions c) n"
  by (simp add: okCount_def errCount_def okErr_def split: option.splits)

text \<open>
  C6. Start from a new collector, let workers submit metrics and the aggregator take
  turns in any interleaving, then \<open>Stop\<close>. Nothing panics, and for every action name the
  success count plus the error count is the number of metrics bearing that name that
  were submitted and not dropped: as \<open>int64\<close> values, and as numbers while fewer than
  \<open>2^63\<close> were kept.
\<close>

theorem ok_plus_err_counts_kept:
  "case runOps hn hr (NewCollector, []) ops of
     Inl e \<Rightarrow> False
   | Inr (c, kept) \<Rightarrow>
       (case Stop hn hr c of
          Inl e \<Rightarrow> False
        | Inr c' \<Rightarrow>
            okCount c' name + errCount c' name = of_nat (length (named name kept))
            \<and> (length (named name kept) < 2 ^ 63 \<longrightarrow>
                 sint (okCount c' name + errCount c' name) = int (length (named name kept))))"
proof -
  from runOps_balanced [OF balanced_New, of hn hr ops] obtain c kept where
    r: "runOps hn hr (NewCollector, []) ops = Inr (c, kept)" and b: "balanced (c, kept)"
    by (metis surj_pair)
  from b have opn: "\<not> closed c" by (simp add: balanced_def)
  define c' where "c' = c\<lparr>metrics := [], closed := True,
                  actions := foldl (collectOne hn hr) (actions c) (metrics c),
                  doneClosed := True\<rparr>"
  have st: "Stop hn hr c = Inr c'" using opn by (simp add: Stop_def c'_def)
  have "okCount c' name + errCount c' name
          = okErr (actions c) name + of_nat (length (named name (metrics c)))"
    by (simp add: okCount_errCount c'_def okErr_foldl)
  also have "\<dots> = of_nat (length (named name kept))"
    using b by (simp add: balanced_def)
  finally have eq: "okCount c' name + errCount c' name = of_nat (length (named name kept))" .
  show ?thesis by (simp add: r st eq sint_of_nat64)
qed

theorem ok_plus_err_counts_kept_witness:
  "case runOps callsNew callsRecordValue (NewCollector, [])
          [Submit pingOK, Drain, Submit slowOK, Submit pingErr] of
     Inl e \<Rightarrow> False
   | Inr (c, kept) \<Rightarrow>
       (case Stop callsNew callsRecordValue c of
          Inl e \<Rightarrow> False
        | Inr c' \<Rightarrow> kept = [pingOK, slowOK, pingErr] \<and> length (named ''Ping'' kept) < 2 ^ 63
            \<and> sint (okCount c' ''Ping'' + errCount c' ''Ping'') = 2)"
  using ok_plus_err_counts_kept [where hn = callsNew and hr = callsRecordValue
          and ops = "[Submit pingOK, Drain, Submit slowOK, Submit pingErr]" and name = "''Ping''"]
  by (simp add: Record_def NewCollector_def metricsCapacity_def collectStep_def Stop_def
        named_def pingOK_def pingErr_def slowOK_def)

subsection \<open>What reaches the histogram\<close>

lemma getOrCreate_collectOne_same:
  "getOrCreate hn (collectOne hn hr acts m) (Name m) =
     (let st = getOrCreate hn acts (Name m);
          st1 = (if isSuccess m
                 then st\<lparr>TotalOK := TotalOK st + 1, Histogram := hr (Histogram st) (latencyMicros m)\<rparr>
                 else st\<lparr>TotalErrors := TotalErrors st + 1\<rparr>)
      in st1\<lparr>BytesTotal := BytesTotal st1 + BytesRead m\<rparr>)"
  by (simp add: collectOne_def getOrCreate_def Let_def isSuccess_def)

lemma getOrCreate_collectOne_other:
  "n \<noteq> Name m \<Longrightarrow> getOrCreate hn (collectOne hn hr acts m) n = getOrCreate hn acts n"
  by (simp add: collectOne_def getOrCreate_def Let_def)

lemma foldl_collectOne_stats:
  "Histogram (getOrCreate hn (foldl (collectOne hn hr) acts ms) n)
     = foldl hr (Histogram (getOrCreate hn acts n)) (map latencyMicros (filter isSuccess (named n ms)))
   \<and> TotalOK (getOrCreate hn (foldl (collectOne hn hr) acts ms) n)
     = TotalOK (getOrCreate hn acts n) + of_nat (length (filter isSuccess (named n ms)))"
proof (induction ms arbitrary: acts)
  case Nil
  show ?case by (simp add: named_def)
next
  case (Cons m ms)
  show ?case
  proof (cases "n = Name m")
    case True
    show ?thesis
      using Cons.IH [of "collectOne hn hr acts m"]
      by (simp add: True named_def getOrCreate_collectOne_same Let_def)
  next
    case False
    then show ?thesis
      using Cons.IH [of "collectOne hn hr acts m"]
      by (simp add: named_def getOrCreate_collectOne_other)
  qed
qed

lemma foldl_collectOne_dom:
  "named n ms \<noteq> [] \<or> acts n \<noteq> None \<Longrightarrow> foldl (collectOne hn hr) acts ms n \<noteq> None"
proof (induction ms arbitrary: acts)
  case Nil
  then show ?case by (simp add: named_def)
next
  case (Cons m ms)
  have "named n ms \<noteq> [] \<or> collectOne hn hr acts m n \<noteq> None"
    using Cons.prems by (auto simp: named_def collectOne_def Let_def split: if_splits)
  with Cons.IH [of "collectOne hn hr acts m"] show ?case by simp
qed

text \<open>
  C2, as the code has it. The aggregator neither clamps a latency nor looks at what
  \<open>RecordValue\<close> answers: for an action that occurs among the drained metrics, the
  histogram is the one created by \<open>New(1, 60000000, 3)\<close> to which \<open>RecordValue\<close> was
  applied once per success, in order, with the raw latency \<open>EndTime - StartTime\<close> in
  microseconds, and \<open>TotalOK\<close> is the number of those calls. What a value outside
  \<open>[1, 60000000]\<close> does to the histogram is decided by the histogram package.
\<close>

theorem histogram_receives_raw_latencies:
  assumes "named name ms \<noteq> []"
  shows "\<exists>st. foldl (collectOne hn hr) Map.empty ms name = Some st
          \<and> Histogram st = foldl hr (hn 1 60000000 3)
                              (map latencyMicros (filter isSuccess (named name ms)))
          \<and> TotalOK st = of_nat (length (filter isSuccess (named name ms)))"
proof -
  from foldl_collectOne_dom [of name ms Map.empty hn hr] assms
  obtain st where st: "foldl (collectOne hn hr) Map.empty ms name = Some st" by auto
  then have g: "getOrCreate hn (foldl (collectOne hn hr) Map.empty ms) name = st"
    by (simp add: getOrCreate_def)
  from foldl_collectOne_stats [of hn hr Map.empty ms name]
  show ?thesis by (simp add: st g getOrCreate_def)
qed

theorem histogram_receives_raw_latencies_witness:
  "named ''Slow'' [pingOK, slowOK, pingErr] \<noteq> [] \<and>
   (\<exists>st. foldl (collectOne callsNew callsRecordValue) Map.empty [pingOK, slowOK, pingErr] ''Slow''
           = Some st \<and> Histogram st = [70000000] \<and> TotalOK st = 1)"
  using histogram_receives_raw_latencies [where hn = callsNew and hr = callsRecordValue
          and ms = "[pingOK, slowOK, pingErr]" and name = "''Slow''"]
  by (simp add: named_def pingOK_def slowOK_def pingErr_def isSuccess_def callsNew_def
        callsRecordValue_def latencyMicros_def Microseconds_def time_Sub_def
        minDuration_def maxDuration_def signed_divide_int_def)

text \<open>
  C2 as stated fails: a success that took 70 s is handed to \<open>RecordValue\<close> as
  \<open>70000000\<close> microseconds, above the bound of \<open>60000000\<close>; the aggregator does not clamp.
\<close>

theorem latency_not_clamped_counterexample:
  "isSuccess slowOK
   \<and> map_option Histogram (collectOne callsNew callsRecordValue Map.empty slowOK ''Slow'')
       = Some [70000000]
   \<and> (60000000 :: int) < 70000000"
  by (simp add: slowOK_def isSuccess_def collectOne_def getOrCreate_def callsNew_def
        callsRecordValue_def latencyMicros_def Microseconds_def time_Sub_def
        minDuration_def maxDuration_def signed_divide_int_def Let_def)

section \<open>Theorems: the shutdown sequence\<close>

text \<open>
  The order of \<open>Run\<close>, for every configuration: the final report is printed, and the
  output file written, before the only \<open>CollectorStop\<close>, which is the last step.
\<close>

lemma Run_report_precedes_Stop:
  "\<exists>pre mid. snd (Run cfg saveOk) = pre @ [PrintFinalReport] @ mid @ [CollectorStop]
     \<and> CollectorStop \<notin> set pre \<and> CollectorStop \<notin> set mid"
proof -
  let ?pre = "[CollectorStart, StartLiveReporting, ContextWithTimeout (Duration cfg)]
              @ map (\<lambda>i. SpawnWorker (int i + 1)) [0..<nat (Users cfg)]
              @ [AwaitContextDone, AwaitWorkers]"
  let ?mid = "(if OutputFile cfg \<noteq> [] then [SaveReport (OutputFile cfg)] else [])
              @ [ContextCancel]"
  have "snd (Run cfg saveOk) = ?pre @ [PrintFinalReport] @ ?mid @ [CollectorStop]"
    by (simp add: Run_def Let_def)
  moreover have "CollectorStop \<notin> set ?pre" by auto
  moreover have "CollectorStop \<notin> set ?mid" by auto
  ultimately show ?thesis by blast
qed

text \<open>
  C3, evaluated on the code. One user, an output file. The worker's metric is accepted
  by the sink, and the aggregator goroutine has not had its turn when the workers have
  returned. \<open>Run\<close> prints the final report and writes the file first: both show no
  action at all. Only then the deferred \<open>Stop\<close> closes the sink and drains it, after
  which the collector does hold the request.
\<close>

theorem final_report_precedes_drain:
  "snd (Run oneUser True) =
     [CollectorStart, StartLiveReporting, ContextWithTimeout 2000000000, SpawnWorker 1,
      AwaitContextDone, AwaitWorkers, PrintFinalReport, SaveReport ''out.json'',
      ContextCancel, CollectorStop]
   \<and> (case execSteps callsNew callsRecordValue [Submit pingOK] (snd (Run oneUser True)) initialRun of
        Inl e \<Rightarrow> False
      | Inr s \<Rightarrow> map_option dom (printed s) = Some {} \<and> map_option dom (saved s) = Some {}
                \<and> okCount (collector s) ''Ping'' = 1)"
  by (simp add: Run_def oneUser_def initialRun_def NewCollector_def Record_def
        metricsCapacity_def Stop_def collectOne_def getOrCreate_def okCount_def pingOK_def
        Let_def)

section \<open>Theorems: credential placeholders\<close>



lemma prefix_closing_eq:
  assumes "prefix (u @ ''}}'') (n @ ''}}'' @ rest)"
    and "CHR ''}'' \<notin> set u" and "CHR ''}'' \<notin> set n"
  shows "u = n"
proof -
  from assms(1) obtain z where z: "n @ ''}}'' @ rest = (u @ ''}}'') @ z"
    by (auto simp: prefix_def)
  have "takeWhile (\<lambda>c. c \<noteq> CHR ''}'') (n @ ''}}'' @ rest) = n"
    using assms(3) by (auto simp: takeWhile_tail takeWhile_eq_all_conv)
  moreover have "takeWhile (\<lambda>c. c \<noteq> CHR ''}'') ((u @ ''}}'') @ z) = u"
    using assms(2) by (auto simp: takeWhile_tail takeWhile_eq_all_conv)
  ultimately show ?thesis using z by simp
qed


lemma substPiece_simps [simp]:
  "substPiece u new (Lit s) = Lit s"
  "substPiece u new (Braced n) = (if n = u then Lit new else Braced n)"
  by (simp_all add: substPiece_def)













section \<open>Theorems: the CSRF token\<close>

lemma length_ReplaceAll_empty_le: "length (ReplaceAll s old []) \<le> length s"
proof (induction s old "[] :: string" rule: ReplaceAll.induct)
  case (1 old)
  show ?case by simp
next
  case (2 c cs old)
  show ?case
  proof (cases "old \<noteq> [] \<and> prefix old (c # cs)")
    case True
    with 2(1) have "length (ReplaceAll (drop (length old) (c # cs)) old [])
                      \<le> length (drop (length old) (c # cs))" by simp
    with True show ?thesis by simp
  next
    case False
    with 2(2) have "length (ReplaceAll cs old []) \<le> length cs" by simp
    with False show ?thesis by auto
  qed
qed

lemma ReplaceAll_empty_shrinks:
  "old \<noteq> [] \<Longrightarrow> indexOf s old \<noteq> None \<Longrightarrow> length (ReplaceAll s old []) < length s"
proof (induction s)
  case Nil
  then show ?case by simp
next
  case (Cons c cs)
  show ?case
  proof (cases "prefix old (c # cs)")
    case True
    have pos: "0 < length old" using Cons.prems(1) by simp
    have "length (ReplaceAll (drop (length old) (c # cs)) old [])
            \<le> length (drop (length old) (c # cs))"
      by (rule length_ReplaceAll_empty_le)
    also have "\<dots> = Suc (length cs) - length old" by simp
    also have "\<dots> < Suc (length cs)" using pos by arith
    finally have "length (ReplaceAll (drop (length old) (c # cs)) old []) < Suc (length cs)" .
    moreover have "ReplaceAll (c # cs) old []
                     = ReplaceAll (drop (length old) (c # cs)) old []"
      using True Cons.prems(1) by simp
    ultimately show ?thesis by simp
  next
    case False
    with Cons.prems have "indexOf cs old \<noteq> None" by simp
    with Cons.IH Cons.prems(1) have "length (ReplaceAll cs old []) < length cs" by simp
    with False show ?thesis by simp
  qed
qed

text \<open>
  C10. With an empty CSRF token the form body is sent as it is, the literal
  \<open>CSRF_TOKEN_PLACEHOLDER\<close> included: the body sent differs from what a replacement by the
  empty string would give. The substitution happens exactly when the token is not
  empty, and only for a form body: when a JSON body is set it is sent unchanged,
  whatever the token.
\<close>

theorem csrf_placeholder_only_with_token:
  "(JSONBody ea = [] \<and> Body ea \<noteq> [] \<and> csrfToken w = []
      \<longrightarrow> requestBody esc w ea = Some (Body ea))
   \<and> (JSONBody ea = [] \<and> Body ea \<noteq> [] \<and> csrfToken w = []
        \<and> Contains (Body ea) ''CSRF_TOKEN_PLACEHOLDER''
      \<longrightarrow> requestBody esc w ea \<noteq> Some (ReplaceAll (Body ea) ''CSRF_TOKEN_PLACEHOLDER'' []))
   \<and> (JSONBody ea = [] \<and> Body ea \<noteq> [] \<and> csrfToken w \<noteq> []
      \<longrightarrow> requestBody esc w ea
            = Some (ReplaceAll (Body ea) ''CSRF_TOKEN_PLACEHOLDER'' (esc (csrfToken w))))
   \<and> (JSONBody ea \<noteq> [] \<longrightarrow> requestBody esc w ea = Some (JSONBody ea))"
proof -
  have "ReplaceAll (Body ea) ''CSRF_TOKEN_PLACEHOLDER'' [] \<noteq> Body ea"
    if "Contains (Body ea) ''CSRF_TOKEN_PLACEHOLDER''"
  proof -
    from that have "length (ReplaceAll (Body ea) ''CSRF_TOKEN_PLACEHOLDER'' []) < length (Body ea)"
      by (intro ReplaceAll_empty_shrinks) (simp_all add: Contains_def)
    then show ?thesis by auto
  qed
  then show ?thesis by (auto simp: requestBody_def)
qed

theorem csrf_placeholder_only_with_token_witness:
  "requestBody (\<lambda>t. t) worker1 (profileAction\<lparr>Body := ''t=CSRF_TOKEN_PLACEHOLDER''\<rparr>)
     = Some ''t=CSRF_TOKEN_PLACEHOLDER''
   \<and> requestBody (\<lambda>t. t) (worker1\<lparr>csrfToken := ''TKN1''\<rparr>)
       (profileAction\<lparr>Body := ''t=CSRF_TOKEN_PLACEHOLDER''\<rparr>) = Some ''t=TKN1''
   \<and> requestBody (\<lambda>t. t) (worker1\<lparr>csrfToken := ''TKN1''\<rparr>)
       (profileAction\<lparr>JSONBody := ''{CSRF_TOKEN_PLACEHOLDER}''\<rparr>) = Some ''{CSRF_TOKEN_PLACEHOLDER}''"
  using csrf_placeholder_only_with_token
          [of "profileAction\<lparr>Body := ''t=CSRF_TOKEN_PLACEHOLDER''\<rparr>" worker1 "\<lambda>t. t"]
        csrf_placeholder_only_with_token
          [of "profileAction\<lparr>Body := ''t=CSRF_TOKEN_PLACEHOLDER''\<rparr>"
              "worker1\<lparr>csrfToken := ''TKN1''\<rparr>" "\<lambda>t. t"]
        csrf_placeholder_only_with_token
          [of "profileAction\<lparr>JSONBody := ''{CSRF_TOKEN_PLACEHOLDER}''\<rparr>"
              "worker1\<lparr>csrfToken := ''TKN1''\<rparr>" "\<lambda>t. t"]
  by (simp add: profileAction_def worker1_def)

subsection \<open>Extraction from HTML\<close>






section \<open>Theorems: template expansion\<close>

text \<open>
  C8, evaluated on the code. For \<open>{{randInt 0 9223372036854775807}}\<close> both arguments
  parse and \<open>0 < 9223372036854775807\<close>, but \<open>max-min+1\<close> wraps around to
  \<open>-9223372036854775808\<close> and \<open>rand.Intn\<close> panics: the expansion does not produce an
  integer of the range, for any user id, clock reading and random source.
\<close>

theorem randInt_overflow_panics:
  "expandString ''{{randInt 0 9223372036854775807}}'' userID now r = Some (Inl InvalidArgumentToIntn)"
  by (simp add: expandString_def randLoop.simps Contains_def bindR_def randReplacement_def
        Fields_def byte_def Atoi_def isDigit_def digitsValue_def Intn_def wrap64_def Let_def)

subsection \<open>Templates of randInt expressions and unrecognised sequences\<close>

text \<open>
  Where the span of the arguments does not overflow, the expansion of \<open>randInt\<close> is as
  intended. The lemmas below lead to \<open>expandString_randInt_pieces\<close>: on a template made of brace-free text,
  \<open>randInt\<close> expressions whose span fits in 64 bits and unrecognised sequences, the
  expansion returns, each \<open>randInt\<close> expression with arguments \<open>A < B\<close> becomes an
  integer of \<open>[A, B]\<close>, every other \<open>randInt\<close> expression becomes \<open>1\<close>, and the rest of
  the template is left as it is.
\<close>

lemma indexOf_skip_literal:
  "CHR ''{'' \<notin> set s \<Longrightarrow>
   indexOf (s @ rest) (CHR ''{'' # p) = map_option (\<lambda>i. i + length s) (indexOf rest (CHR ''{'' # p))"
  by (induction s) (auto simp: option.map_comp comp_def option.map_ident)

lemma indexOf_skip_braced:
  assumes "CHR ''{'' \<notin> set n" and "\<not> prefix p (n @ ''}}'' @ rest)"
  shows "indexOf ((''{{'' @ n @ ''}}'') @ rest) (''{{'' @ p)
           = map_option (\<lambda>i. i + length (''{{'' @ n @ ''}}'')) (indexOf rest (''{{'' @ p))"
proof -
  have p1: "\<not> prefix (CHR ''{'' # p) (n @ ''}}'' @ rest)"
    using assms(1) by (cases n) auto
  have "indexOf ((n @ ''}}'') @ rest) (CHR ''{'' # CHR ''{'' # p)
          = map_option (\<lambda>i. i + length (n @ ''}}'')) (indexOf rest (CHR ''{'' # CHR ''{'' # p))"
    by (rule indexOf_skip_literal) (use assms(1) in simp)
  then show ?thesis using assms(2) p1 by (simp add: option.map_comp comp_def)
qed

lemma indexOf_skip_pieces:
  assumes "list_all wfPiece ps"
    and "\<And>n x. Braced n \<in> set ps \<Longrightarrow> \<not> prefix p (n @ ''}}'' @ x)"
  shows "indexOf (renderAll ps @ rest) (''{{'' @ p)
           = map_option (\<lambda>i. i + length (renderAll ps)) (indexOf rest (''{{'' @ p))"
  using assms
proof (induction ps)
  case Nil
  show ?case by (simp add: renderAll_def option.map_ident)
next
  case (Cons q ps)
  have ih: "indexOf (renderAll ps @ rest) (''{{'' @ p)
           = map_option (\<lambda>i. i + length (renderAll ps)) (indexOf rest (''{{'' @ p))"
    using Cons by simp
  show ?case
  proof (cases q)
    case (Lit s)
    with Cons.prems have "CHR ''{'' \<notin> set s" by simp
    from indexOf_skip_literal [OF this, of "renderAll ps @ rest" "CHR ''{'' # p"]
    show ?thesis using ih by (simp add: Lit renderAll_def option.map_comp comp_def add.commute add.left_commute)
  next
    case (Braced n)
    with Cons.prems have n: "CHR ''{'' \<notin> set n" by simp
    have np: "\<not> prefix p (n @ ''}}'' @ (renderAll ps @ rest))"
      using Cons.prems(2) [of n] Braced by simp
    from indexOf_skip_braced [OF n np]
    show ?thesis using ih by (simp add: Braced renderAll_def option.map_comp comp_def add.commute add.left_commute)
  qed
qed

lemma prefix_no_close:
  assumes "prefix tag (n @ CHR ''}'' # x)" and "CHR ''}'' \<notin> set tag"
  shows "prefix tag n"
proof -
  from assms(1) have "prefix tag n \<or> (\<exists>us. tag = n @ us \<and> prefix us (CHR ''}'' # x))"
    by (simp add: prefix_append)
  then show ?thesis
  proof
    assume "prefix tag n" then show ?thesis .
  next
    assume "\<exists>us. tag = n @ us \<and> prefix us (CHR ''}'' # x)"
    then obtain us where us: "tag = n @ us" "prefix us (CHR ''}'' # x)" by blast
    show ?thesis
    proof (cases us)
      case Nil
      with us show ?thesis by simp
    next
      case (Cons u us')
      with us(2) have "u = CHR ''}''" by simp
      with us(1) Cons assms(2) show ?thesis by simp
    qed
  qed
qed

lemma ReplaceAll_absent: "indexOf s old = None \<Longrightarrow> ReplaceAll s old new = s"
  by (induction s) (auto split: if_splits)


lemma indexOf_closing:
  "CHR ''}'' \<notin> set s \<Longrightarrow> indexOf (s @ ''}}'' @ rest) ''}}'' = Some (length s)"
  by (induction s) auto

lemma digitChar_set: "d < 10 \<Longrightarrow> digitChar d \<in> set ''0123456789''"
  unfolding digitChar_def by (rule nth_mem) simp

lemma digitsOf_set: "set (digitsOf n) \<subseteq> set ''0123456789''"
proof (induction n rule: digitsOf.induct)
  case (1 n)
  show ?case
  proof (cases "n < 10")
    case True
    then show ?thesis using digitChar_set [of n] by (subst digitsOf.simps) simp
  next
    case False
    have "n mod 10 < 10" by simp
    from digitChar_set [OF this] 1 [OF False] False
    show ?thesis by (subst digitsOf.simps) simp
  qed
qed

lemma Itoa_no_brace: "CHR ''{'' \<notin> set (Itoa v)"
  using digitsOf_set [of "nat v"] digitsOf_set [of "nat (- v)"]
  by (auto simp: Itoa_def)

lemma Atoi_range: "Atoi s = Some v \<Longrightarrow> - 9223372036854775808 \<le> v \<and> v \<le> 9223372036854775807"
  by (auto simp: Atoi_def Let_def split: if_splits)

lemma wrap64_id: "- 9223372036854775808 \<le> x \<Longrightarrow> x \<le> 9223372036854775807 \<Longrightarrow> wrap64 x = x"
  unfolding wrap64_def by (rule signed_take_bit_int_eq_self) simp_all

lemma Intn_range:
  "0 < n \<Longrightarrow> \<exists>v r'. Intn r n = Inr (v, r') \<and> 0 \<le> v \<and> v < n"
  by (cases r) (auto simp: Intn_def)

lemma randReplacement_randInt:
  assumes "case randArgs inner of
             Some (mn, mx) \<Rightarrow> (if mn < mx then mx - mn < 9223372036854775807 else True)
           | None \<Rightarrow> True"
  shows "\<exists>val r'. randReplacement ''1'' inner r = Inr (val, r')
           \<and> expandsTo (Braced (''randInt'' @ inner)) val \<and> CHR ''{'' \<notin> set val"
proof (cases "randArgs inner")
  case None
  then have "randReplacement ''1'' inner r = Inr (''1'', r)"
    by (auto simp: randArgs_def randReplacement_def Let_def split: if_splits option.splits)
  then show ?thesis using None by simp
next
  case (Some ab)
  obtain mn mx where ab: "ab = (mn, mx)" by (cases ab)
  from Some ab have parts: "length (Fields inner) = 2"
      "Atoi (Fields inner ! 0) = Some mn" "Atoi (Fields inner ! 1) = Some mx"
    by (auto simp: randArgs_def Let_def split: if_splits option.splits)
  show ?thesis
  proof (cases "mn < mx")
    case False
    then have "randReplacement ''1'' inner r = Inr (''1'', r)"
      using parts by (simp add: randReplacement_def Let_def)
    then show ?thesis using Some ab False by simp
  next
    case True
    from assms Some ab True have span: "mx - mn < 9223372036854775807" by simp
    from Atoi_range [OF parts(2)] Atoi_range [OF parts(3)]
    have rg: "- 9223372036854775808 \<le> mn" "mn \<le> 9223372036854775807"
             "- 9223372036854775808 \<le> mx" "mx \<le> 9223372036854775807" by simp_all
    have w1: "wrap64 (mx - mn) = mx - mn" using True span by (intro wrap64_id) simp_all
    have w2: "wrap64 (mx - mn + 1) = mx - mn + 1" using True span by (intro wrap64_id) simp_all
    from Intn_range [of "mx - mn + 1" r] True obtain v r' where
      v: "Intn r (mx - mn + 1) = Inr (v, r')" "0 \<le> v" "v < mx - mn + 1" by auto
    have w3: "wrap64 (v + mn) = v + mn" using v rg by (intro wrap64_id) simp_all
    have "randReplacement ''1'' inner r = Inr (Itoa (v + mn), r')"
      using parts True by (simp add: randReplacement_def Let_def w1 w2 v(1) w3)
    moreover have "\<exists>va. mn \<le> va \<and> va \<le> mx \<and> Itoa (v + mn) = Itoa va"
      using v by (intro exI [of _ "v + mn"]) simp
    ultimately show ?thesis using Some ab True Itoa_no_brace by simp
  qed
qed


lemma settled_wf: "settled p \<Longrightarrow> wfPiece p"
  by (cases p) auto

lemma settled_all_wf: "list_all settled ps \<Longrightarrow> list_all wfPiece ps"
  by (induction ps) (auto simp: settled_wf)

lemma settled_Braced: "list_all settled ps \<Longrightarrow> Braced n \<in> set ps \<Longrightarrow> settled (Braced n)"
  by (auto simp: list_all_iff)

lemma settled_no_tag:
  assumes "list_all settled ps"
  shows "indexOf (renderAll ps @ rest) ''{{randInt''
           = map_option (\<lambda>i. i + length (renderAll ps)) (indexOf rest ''{{randInt'')"
    and "indexOf (renderAll ps @ rest) ''{{randDelay''
           = map_option (\<lambda>i. i + length (renderAll ps)) (indexOf rest ''{{randDelay'')"
    and "indexOf (renderAll ps @ rest) ''{{pick movies}}''
           = map_option (\<lambda>i. i + length (renderAll ps)) (indexOf rest ''{{pick movies}}'')"
proof -
  have a: "\<not> prefix ''randInt'' (n @ ''}}'' @ x)" if "Braced n \<in> set ps" for n x
  proof
    assume "prefix ''randInt'' (n @ ''}}'' @ x)"
    then have "prefix ''randInt'' n" using prefix_no_close [of "''randInt''" n "CHR ''}'' # x"] by simp
    with settled_Braced [OF assms that] show False by simp
  qed
  have b: "\<not> prefix ''randDelay'' (n @ ''}}'' @ x)" if "Braced n \<in> set ps" for n x
  proof
    assume "prefix ''randDelay'' (n @ ''}}'' @ x)"
    then have "prefix ''randDelay'' n" using prefix_no_close [of "''randDelay''" n "CHR ''}'' # x"] by simp
    with settled_Braced [OF assms that] show False by simp
  qed
  have c: "\<not> prefix (''pick movies'' @ ''}}'') (n @ ''}}'' @ x)" if "Braced n \<in> set ps" for n x
  proof
    assume "prefix (''pick movies'' @ ''}}'') (n @ ''}}'' @ x)"
    then have "''pick movies'' = n"
      using settled_Braced [OF assms that] by (intro prefix_closing_eq [of _ _ x]) simp_all
    with settled_Braced [OF assms that] show False by simp
  qed
  from indexOf_skip_pieces [OF settled_all_wf [OF assms], of "''randInt''" rest] a
  show "indexOf (renderAll ps @ rest) ''{{randInt''
           = map_option (\<lambda>i. i + length (renderAll ps)) (indexOf rest ''{{randInt'')" by simp
  from indexOf_skip_pieces [OF settled_all_wf [OF assms], of "''randDelay''" rest] b
  show "indexOf (renderAll ps @ rest) ''{{randDelay''
           = map_option (\<lambda>i. i + length (renderAll ps)) (indexOf rest ''{{randDelay'')" by simp
  from indexOf_skip_pieces [OF settled_all_wf [OF assms], of "''pick movies'' @ ''}}''" rest] c
  show "indexOf (renderAll ps @ rest) ''{{pick movies}}''
           = map_option (\<lambda>i. i + length (renderAll ps)) (indexOf rest ''{{pick movies}}'')" by simp
qed


lemma renderAll_append: "renderAll (ps @ qs) = renderAll ps @ renderAll qs"
  by (simp add: renderAll_def)

lemma renderAll_Cons: "renderAll (p # ps) = render p @ renderAll ps"
  by (simp add: renderAll_def)

lemma randLoop_absent:
  "indexOf s tag = None \<Longrightarrow> randLoop tag fb s r = Some (Inr (s, r))"
  by (subst randLoop.simps) (simp add: Contains_def)

lemma randLoop_step:
  assumes idx: "indexOf (pre @ tag @ inner @ ''}}'' @ rest) tag = Some (length pre)"
    and "CHR ''}'' \<notin> set tag" and "CHR ''}'' \<notin> set inner"
    and rep: "randReplacement fb inner r = Inr (val, r1)"
  shows "randLoop tag fb (pre @ tag @ inner @ ''}}'' @ rest) r = randLoop tag fb (pre @ val @ rest) r1"
proof -
  let ?result = "pre @ tag @ inner @ ''}}'' @ rest"
  have d: "drop (length pre) ?result = (tag @ inner) @ ''}}'' @ rest" by simp
  have e: "indexOf (drop (length pre) ?result) ''}}'' = Some (length (tag @ inner))"
    unfolding d by (rule indexOf_closing) (use assms(2,3) in simp)
  have expr: "take (length (tag @ inner) + length pre + 2 - length pre) (drop (length pre) ?result)
                = tag @ inner @ ''}}''"
    by simp
  have inner: "take (length (tag @ inner @ ''}}'') - 2 - length tag)
                 (drop (length tag) (tag @ inner @ ''}}'')) = inner"
    by simp
  have tk: "take (length pre) ?result = pre" by simp
  have dr: "drop (length (tag @ inner) + length pre + 2) ?result = rest" by simp
  have nb: "\<not> length (tag @ inner @ ''}}'') - 2 < length tag" by simp
  show ?thesis
    apply (subst randLoop.simps)
    apply (simp only: Contains_def idx e option.simps Let_def expr inner tk dr nb rep
                      if_True if_False sum.simps prod.simps not_None_eq option.distinct
                      simp_thms)
    done
qed

lemma tpl_not_randInt_settled: "tplPiece p \<Longrightarrow> (\<And>n. p = Braced n \<Longrightarrow> \<not> prefix ''randInt'' n) \<Longrightarrow> settled p"
  by (cases p) auto

lemma settled_expandsTo: "settled p \<Longrightarrow> expandsTo p (render p)"
  by (cases p) auto

lemma randIntLoop_pieces:
  assumes "list_all tplPiece ps" and "list_all settled qs"
  shows "\<exists>ps' r'. randLoop ''{{randInt'' ''1'' (renderAll qs @ renderAll ps) r
                     = Some (Inr (renderAll qs @ renderAll ps', r'))
           \<and> list_all settled ps' \<and> list_all2 expandsTo ps (map render ps')"
  using assms
proof (induction ps arbitrary: qs r)
  case Nil
  have "indexOf (renderAll qs @ []) ''{{randInt'' = None"
    by (subst settled_no_tag(1) [OF Nil(2)]) simp
  then have "randLoop ''{{randInt'' ''1'' (renderAll qs @ renderAll []) r
               = Some (Inr (renderAll qs @ renderAll [], r))"
    by (simp add: randLoop_absent renderAll_def)
  then show ?case by (intro exI [of _ "[]"] exI [of _ r]) simp
next
  case (Cons p ps)
  from Cons.prems have tp: "tplPiece p" and tps: "list_all tplPiece ps" by simp_all
  show ?case
  proof (cases "\<exists>n. p = Braced n \<and> prefix ''randInt'' n")
    case False
    with tp have sp: "settled p" by (intro tpl_not_randInt_settled) auto
    with Cons.prems(2) have sq: "list_all settled (qs @ [p])" by simp
    from Cons.IH [OF tps sq, of r] obtain ps' r' where
      run: "randLoop ''{{randInt'' ''1'' (renderAll (qs @ [p]) @ renderAll ps) r
              = Some (Inr (renderAll (qs @ [p]) @ renderAll ps', r'))"
      and st: "list_all settled ps'" and ex: "list_all2 expandsTo ps (map render ps')"
      by blast
    show ?thesis
    proof (intro exI [of _ "p # ps'"] exI [of _ r'] conjI)
      show "randLoop ''{{randInt'' ''1'' (renderAll qs @ renderAll (p # ps)) r
              = Some (Inr (renderAll qs @ renderAll (p # ps'), r'))"
        using run by (simp add: renderAll_append renderAll_Cons renderAll_def)
      show "list_all settled (p # ps')" using sp st by simp
      show "list_all2 expandsTo (p # ps) (map render (p # ps'))"
        using ex settled_expandsTo [OF sp] by simp
    qed
  next
    case True
    then obtain n where p: "p = Braced n" and pre: "prefix ''randInt'' n" by blast
    define inner where "inner = drop 7 n"
    from pre have n: "n = ''randInt'' @ inner"
      by (auto simp: inner_def prefix_def)
    from tp p have nb: "CHR ''{'' \<notin> set n" "CHR ''}'' \<notin> set n" by simp_all
    then have ib: "CHR ''}'' \<notin> set inner" unfolding n by simp
    have ok: "case randArgs inner of
                Some (mn, mx) \<Rightarrow> (if mn < mx then mx - mn < 9223372036854775807 else True)
              | None \<Rightarrow> True"
      using tp p pre by (simp add: inner_def)
    from randReplacement_randInt [OF ok, of r] obtain val r1 where
      rep: "randReplacement ''1'' inner r = Inr (val, r1)"
      and et: "expandsTo (Braced (''randInt'' @ inner)) val" and vb: "CHR ''{'' \<notin> set val"
      by blast
    have idx: "indexOf (renderAll qs @ ''{{randInt'' @ inner @ ''}}'' @ renderAll ps) ''{{randInt''
                 = Some (length (renderAll qs))"
      by (subst settled_no_tag(1) [OF Cons.prems(2)]) simp
    have step: "randLoop ''{{randInt'' ''1''
                  (renderAll qs @ ''{{randInt'' @ inner @ ''}}'' @ renderAll ps) r
                = randLoop ''{{randInt'' ''1'' (renderAll qs @ val @ renderAll ps) r1"
      by (rule randLoop_step [OF idx _ ib rep]) simp
    have sq: "list_all settled (qs @ [Lit val])" using Cons.prems(2) vb by simp
    from Cons.IH [OF tps sq, of r1] obtain ps' r' where
      run: "randLoop ''{{randInt'' ''1'' (renderAll (qs @ [Lit val]) @ renderAll ps) r1
              = Some (Inr (renderAll (qs @ [Lit val]) @ renderAll ps', r'))"
      and st: "list_all settled ps'" and ex: "list_all2 expandsTo ps (map render ps')"
      by blast
    have rn: "renderAll qs @ renderAll (p # ps)
                = renderAll qs @ ''{{randInt'' @ inner @ ''}}'' @ renderAll ps"
      by (simp add: renderAll_Cons p n)
    show ?thesis
    proof (intro exI [of _ "Lit val # ps'"] exI [of _ r'] conjI)
      show "randLoop ''{{randInt'' ''1'' (renderAll qs @ renderAll (p # ps)) r
              = Some (Inr (renderAll qs @ renderAll (Lit val # ps'), r'))"
        unfolding rn step using run by (simp add: renderAll_append renderAll_Cons renderAll_def)
      show "list_all settled (Lit val # ps')" using vb st by simp
      show "list_all2 expandsTo (p # ps) (map render (Lit val # ps'))"
        using ex et by (simp add: p n)
    qed
  qed
qed


lemma tpl_wf: "list_all tplPiece ps \<Longrightarrow> list_all wfPiece ps"
proof (induction ps)
  case Nil
  show ?case by simp
next
  case (Cons p ps)
  then show ?case by (cases p) auto
qed

lemma tpl_no_fixed_placeholder:
  assumes "list_all tplPiece ps"
  shows "indexOf (renderAll ps) ''{{userId}}'' = None"
    and "indexOf (renderAll ps) ''{{epochms}}'' = None"
proof -
  have t: "tplPiece (Braced n)" if "Braced n \<in> set ps" for n
    using assms that unfolding list_all_iff by blast
  have a: "\<not> prefix (''userId'' @ ''}}'') (n @ ''}}'' @ x)" if "Braced n \<in> set ps" for n x
  proof
    assume "prefix (''userId'' @ ''}}'') (n @ ''}}'' @ x)"
    then have "''userId'' = n"
      using t [OF that] by (intro prefix_closing_eq [of _ _ x]) simp_all
    with t [OF that] show False by simp
  qed
  have b: "\<not> prefix (''epochms'' @ ''}}'') (n @ ''}}'' @ x)" if "Braced n \<in> set ps" for n x
  proof
    assume "prefix (''epochms'' @ ''}}'') (n @ ''}}'' @ x)"
    then have "''epochms'' = n"
      using t [OF that] by (intro prefix_closing_eq [of _ _ x]) simp_all
    with t [OF that] show False by simp
  qed
  from indexOf_skip_pieces [OF tpl_wf [OF assms], of "''userId'' @ ''}}''" "[]"] a
  show "indexOf (renderAll ps) ''{{userId}}'' = None" by simp
  from indexOf_skip_pieces [OF tpl_wf [OF assms], of "''epochms'' @ ''}}''" "[]"] b
  show "indexOf (renderAll ps) ''{{epochms}}'' = None" by simp
qed

theorem expandString_randInt_pieces:
  assumes "list_all tplPiece ps"
  shows "\<exists>outs r'. expandString (renderAll ps) userID now r = Some (Inr (concat outs, r'))
           \<and> list_all2 expandsTo ps outs"
proof -
  have r1: "ReplaceAll (renderAll ps) ''{{userId}}'' (Itoa userID) = renderAll ps"
    by (rule ReplaceAll_absent) (rule tpl_no_fixed_placeholder(1) [OF assms])
  have r2: "ReplaceAll (renderAll ps) ''{{epochms}}'' (Itoa now) = renderAll ps"
    by (rule ReplaceAll_absent) (rule tpl_no_fixed_placeholder(2) [OF assms])
  from randIntLoop_pieces [OF assms, of "[]" r] obtain ps' r' where
    run: "randLoop ''{{randInt'' ''1'' (renderAll ps) r = Some (Inr (renderAll ps', r'))"
    and st: "list_all settled ps'" and ex: "list_all2 expandsTo ps (map render ps')"
    by (auto simp: renderAll_def)
  have pk: "indexOf (renderAll ps') ''{{pick movies}}'' = None"
    using settled_no_tag(3) [OF st, of "[]"] by simp
  have dl: "indexOf (renderAll ps') ''{{randDelay'' = None"
    using settled_no_tag(2) [OF st, of "[]"] by simp
  have "expandString (renderAll ps) userID now r = Some (Inr (renderAll ps', r'))"
    by (simp add: expandString_def r1 r2 run bindR_def Contains_def pk randLoop_absent [OF dl])
  then show ?thesis using ex
    by (intro exI [of _ "map render ps'"] exI [of _ r']) (simp add: renderAll_def)
qed

theorem expandString_randInt_pieces_witness:
  "\<exists>outs r'. expandString ''/p?x={{randInt 1 20}}&y={{randInt 5 5}}&z={{foo}}'' 3 1700000000000 [7]
               = Some (Inr (concat outs, r'))
     \<and> list_all2 expandsTo
         [Lit ''/p?x='', Braced ''randInt 1 20'', Lit ''&y='', Braced ''randInt 5 5'',
          Lit ''&z='', Braced ''foo''] outs"
proof -
  have a: "randArgs '' 1 20'' = Some (1, 20)"
    by (simp add: randArgs_def Fields_def byte_def Atoi_def isDigit_def digitsValue_def)
  have b: "randArgs '' 5 5'' = Some (5, 5)"
    by (simp add: randArgs_def Fields_def byte_def Atoi_def isDigit_def digitsValue_def)
  have "list_all tplPiece
         [Lit ''/p?x='', Braced ''randInt 1 20'', Lit ''&y='', Braced ''randInt 5 5'',
          Lit ''&z='', Braced ''foo'']"
    by (simp add: a b)
  from expandString_randInt_pieces [OF this, of 3 1700000000000 "[7]"]
  show ?thesis by (simp add: renderAll_def)
qed

end
